theory Spec2Isabelle
  imports Main
begin

section \<open>Bytes and strings\<close>

text \<open>
  A Go \<open>string\<close> is a sequence of bytes, modelled as a \<open>char list\<close> (an Isabelle
  \<open>char\<close> is one byte). The wire format's line terminator is the two bytes CR, LF.
\<close>

definition CR :: char where
  "CR = CHR 0x0D"

definition LF :: char where
  "LF = CHR 0x0A"

definition CRLF :: string where
  "CRLF = [CR, LF]"

text \<open>\<open>c < utf8.RuneSelf\<close>: the byte is a complete ASCII character.\<close>

definition isASCII :: "char \<Rightarrow> bool" where
  "isASCII c = ((of_char c :: nat) < 128)"

text \<open>The ASCII branch of \<open>strings.ToLower\<close>: \<open>c += 'a' - 'A'\<close> for \<open>'A' <= c <= 'Z'\<close>.\<close>

definition lowerASCII :: "char \<Rightarrow> char" where
  "lowerASCII c =
     (if (65::nat) \<le> of_char c \<and> (of_char c :: nat) \<le> 90
      then char_of ((of_char c :: nat) + 32) else c)"

text \<open>The table \<open>asciiSpace\<close> of package \<open>strings\<close>: tab, LF, VT, FF, CR and space.\<close>

definition asciiSpace :: "char \<Rightarrow> bool" where
  "asciiSpace c = ((of_char c :: nat) \<in> {9, 10, 11, 12, 13, 32})"

text \<open>
  The standard library treats a string that holds a byte outside ASCII through its Unicode
  tables (\<open>strings.Map(unicode.ToLower, s)\<close>, \<open>strings.TrimFunc(s, unicode.IsSpace)\<close>,
  \<open>strings.TrimRightFunc(s, unicode.IsSpace)\<close>). Those tables are not part of the
  repository; the three functions are parameters of the model. On ASCII-only strings the
  functions below never consult them.
\<close>

record unicode =
  mapToLower :: "string \<Rightarrow> string"
  trimFuncSpace :: "string \<Rightarrow> string"
  trimRightFuncSpace :: "string \<Rightarrow> string"

definition ToLower :: "'u unicode_scheme \<Rightarrow> string \<Rightarrow> string" where
  "ToLower U s = (if list_all isASCII s then map lowerASCII s else mapToLower U s)"

text \<open>
  \<open>strings.TrimSpace\<close>: the second loop scans from the end of the string; \<open>trimStop\<close>
  takes the reversed remainder \<open>s[start:stop]\<close>.
\<close>

fun trimStop :: "'u unicode_scheme \<Rightarrow> string \<Rightarrow> string" where
  "trimStop U [] = []"
| "trimStop U (c # r) =
     (if \<not> isASCII c then trimRightFuncSpace U (rev (c # r))
      else if asciiSpace c then trimStop U r
      else rev (c # r))"

fun TrimSpace :: "'u unicode_scheme \<Rightarrow> string \<Rightarrow> string" where
  "TrimSpace U [] = []"
| "TrimSpace U (c # s) =
     (if \<not> isASCII c then trimFuncSpace U (c # s)
      else if asciiSpace c then TrimSpace U s
      else trimStop U (rev (c # s)))"

text \<open>\<open>strings.TrimSuffix(s, suffix)\<close>.\<close>

definition TrimSuffix :: "string \<Rightarrow> string \<Rightarrow> string" where
  "TrimSuffix s suffix =
     (if length suffix \<le> length s \<and> drop (length s - length suffix) s = suffix
      then take (length s - length suffix) s else s)"

text \<open>
  \<open>strings.Split(s, sep)\<close> and \<open>strings.SplitN(s, sep, n)\<close> for a separator of one byte,
  the only kind the server uses. \<open>SplitN\<close> is given for \<open>n \<ge> 0\<close>: no piece for
  \<open>n = 0\<close>, otherwise at most \<open>n\<close> pieces, the last one the unsplit remainder.
\<close>

fun Split :: "string \<Rightarrow> char \<Rightarrow> string list" where
  "Split [] sep = [[]]"
| "Split (c # s) sep =
     (if c = sep then [] # Split s sep
      else (case Split s sep of [] \<Rightarrow> [[c]] | f # fs \<Rightarrow> (c # f) # fs))"

fun SplitN :: "string \<Rightarrow> char \<Rightarrow> nat \<Rightarrow> string list" where
  "SplitN s sep n =
     (if n = 0 then []
      else if n = 1 then [s]
      else (case s of
              [] \<Rightarrow> [[]]
            | c # s' \<Rightarrow>
                if c = sep then [] # SplitN s' sep (n - 1)
                else (case SplitN s' sep n of [] \<Rightarrow> [[c]] | f # fs \<Rightarrow> (c # f) # fs)))"

declare SplitN.simps [simp del]

section \<open>Requests and the connection decision\<close>

definition http10 :: string where
  "http10 = ''HTTP/1.0''"

definition http11 :: string where
  "http11 = ''HTTP/1.1''"

text \<open>
  \<open>Body\<close> is an \<open>io.LimitedReader\<close> whose source \<open>R\<close> is the connection's shared
  buffered reader; the model keeps the reader's remaining input in the connection state
  and the limit \<open>N\<close> (an \<open>int64\<close>) here.
\<close>

record LimitedReader =
  N :: int

record Request =
  Method :: string
  URI :: string
  Proto :: string
  Headers :: "string \<rightharpoonup> string"
  Body :: LimitedReader

text \<open>Indexing a Go map of strings with a missing key yields the empty string.\<close>

definition index :: "(string \<rightharpoonup> string) \<Rightarrow> string \<Rightarrow> string" where
  "index m k = (case m k of None \<Rightarrow> [] | Some v \<Rightarrow> v)"

text \<open>
  \<open>parseConnection\<close> returns \<open>(keepalive, echo)\<close>. The \<open>switch\<close> has no default case and
  Go cases do not fall through: every path that does not return inside the \<open>switch\<close>
  reaches the final \<open>return false, false\<close>.
\<close>

definition parseConnection :: "'u unicode_scheme \<Rightarrow> Request \<Rightarrow> bool \<times> bool" where
  "parseConnection U req =
     (let conn = ToLower U (index (Headers req) ''connection'') in
      if Proto req = http10 then
        (if conn = ''keep-alive'' then (True, True) else (False, False))
      else if Proto req = http11 then
        (if conn = ''close'' then (False, True) else (False, False))
      else (False, False))"

section \<open>The line reader\<close>

datatype error =
  EOF
  | MalformedRequestLine string
  | ErrSyntax
  | ErrRange
  | UnsupportedStatus int
  | ErrWrite

text \<open>
  The buffered reader over the connection is modelled by the bytes it has still to
  deliver: what the peer sends, in order, after which every read reports \<open>EOF\<close>.
  \<open>bufio.Reader.ReadString(delim)\<close> returns the bytes up to and including the first
  \<open>delim\<close>; when the stream ends before a \<open>delim\<close> it returns what was left together
  with the error, and the stream is then empty.
\<close>

definition ReadString :: "string \<Rightarrow> char \<Rightarrow> (string \<times> error option) \<times> string" where
  "ReadString inp delim =
     (if delim \<in> set inp
      then ((takeWhile (\<lambda>c. c \<noteq> delim) inp @ [delim], None),
            tl (dropWhile (\<lambda>c. c \<noteq> delim) inp))
      else ((inp, Some EOF), []))"

definition readHTTPLine :: "string \<Rightarrow> (error + string) \<times> string" where
  "readHTTPLine inp =
     (case ReadString inp LF of
        ((ln, Some err), inp') \<Rightarrow> (Inl err, inp')
      | ((ln, None), inp') \<Rightarrow> (Inr (TrimSuffix ln CRLF), inp'))"

section \<open>The request parser\<close>

text \<open>The named results of both line parsers are zero-valued on the bare \<open>return\<close>.\<close>

definition parseRequestLine :: "string \<Rightarrow> string \<times> string \<times> string \<times> bool" where
  "parseRequestLine ln =
     (let s = Split ln (CHR '' '') in
      if length s \<noteq> 3 then ([], [], [], False)
      else (s ! 0, s ! 1, s ! 2, True))"

definition parseHeaderLine :: "'u unicode_scheme \<Rightarrow> string \<Rightarrow> string \<times> string \<times> bool" where
  "parseHeaderLine U ln =
     (let s = SplitN ln (CHR '':'') 2 in
      if length s \<noteq> 2 then ([], [], False)
      else (ToLower U (s ! 0), TrimSpace U (s ! 1), True))"

text \<open>
  \<open>strconv.ParseUint(s, 10, 64)\<close>: the value and the error. Every byte must be a decimal
  digit (base 10 admits neither letters nor underscores); on overflow the loop stops at
  once with the largest value and a range error.
\<close>

definition isDigit :: "char \<Rightarrow> bool" where
  "isDigit c = ((48::nat) \<le> of_char c \<and> (of_char c :: nat) \<le> 57)"

definition maxUint64 :: int where
  "maxUint64 = 2 ^ 64 - 1"

fun parseUintLoop :: "string \<Rightarrow> int \<Rightarrow> int \<times> error option" where
  "parseUintLoop [] n = (n, None)"
| "parseUintLoop (c # cs) n =
     (if \<not> isDigit c then (0, Some ErrSyntax)
      else if n \<ge> maxUint64 div 10 + 1 then (maxUint64, Some ErrRange)
      else if n * 10 + (of_char c - 48) > maxUint64 then (maxUint64, Some ErrRange)
      else parseUintLoop cs (n * 10 + (of_char c - 48)))"

definition ParseUint :: "string \<Rightarrow> int \<times> error option" where
  "ParseUint s = (if s = [] then (0, Some ErrSyntax) else parseUintLoop s 0)"

text \<open>\<open>strconv.ParseInt(s, 10, 64)\<close>: an optional sign, then \<open>ParseUint\<close> and the range check.\<close>

definition ParseInt :: "string \<Rightarrow> error + int" where
  "ParseInt s =
     (if s = [] then Inl ErrSyntax
      else
        let neg = (hd s = CHR ''-'');
            s' = (if hd s = CHR ''+'' \<or> hd s = CHR ''-'' then tl s else s)
        in case ParseUint s' of
             (un, Some ErrSyntax) \<Rightarrow> Inl ErrSyntax
           | (un, _) \<Rightarrow>
               if \<not> neg \<and> un \<ge> 2 ^ 63 then Inl ErrRange
               else if neg \<and> un > 2 ^ 63 then Inl ErrRange
               else Inr (if neg then - un else un))"

text \<open>
  The header loop of \<open>readRequest\<close>: a read error ends the parse, a line of length 0
  ends the header section, a line that \<open>parseHeaderLine\<close> accepts is stored (a later
  line with the same key overwrites), any other line is passed over.
\<close>

lemma ReadString_shorter:
  "ReadString inp delim = ((ln, None), inp') \<Longrightarrow> length inp' < length inp"
proof -
  assume a: "ReadString inp delim = ((ln, None), inp')"
  then have m: "delim \<in> set inp" and i: "inp' = tl (dropWhile (\<lambda>c. c \<noteq> delim) inp)"
    by (auto simp: ReadString_def split: if_splits)
  from m have ne: "dropWhile (\<lambda>c. c \<noteq> delim) inp \<noteq> []"
    by simp
  have "length (dropWhile (\<lambda>c. c \<noteq> delim) inp) \<le> length inp"
    by (rule length_dropWhile_le)
  with ne i show ?thesis
    by (cases "dropWhile (\<lambda>c. c \<noteq> delim) inp") auto
qed

lemma readHTTPLine_shorter:
  "readHTTPLine inp = (Inr ln, inp') \<Longrightarrow> length inp' < length inp"
  by (auto simp: readHTTPLine_def split: prod.splits option.splits dest: ReadString_shorter)

function readHeaders ::
  "'u unicode_scheme \<Rightarrow> string \<Rightarrow> (string \<rightharpoonup> string) \<Rightarrow> (error + (string \<rightharpoonup> string)) \<times> string"
where
  "readHeaders U inp hs =
     (case readHTTPLine inp of
        (Inl err, inp') \<Rightarrow> (Inl err, inp')
      | (Inr ln, inp') \<Rightarrow>
          if length ln = 0 then (Inr hs, inp')
          else (case parseHeaderLine U ln of
                  (key, val, ok) \<Rightarrow>
                    readHeaders U inp' (if ok then hs(key \<mapsto> val) else hs)))"
  by pat_completeness auto
termination
  by (relation "measure (\<lambda>(U, inp, hs). length inp)")
     (auto dest: readHTTPLine_shorter [OF sym])

declare readHeaders.simps [simp del]

text \<open>
  \<open>readRequest\<close>. An error of the first \<open>readHTTPLine\<close> is not returned: the \<open>if\<close> has
  no \<open>else\<close>, the request line's fields stay empty and the header loop runs next.
\<close>

definition readRequest :: "'u unicode_scheme \<Rightarrow> string \<Rightarrow> (error + Request) \<times> string" where
  "readRequest U inp =
     (case readHTTPLine inp of
        (r0, inp1) \<Rightarrow>
          (case (case r0 of
                   Inl err \<Rightarrow> Inr ([], [], [])
                 | Inr ln0 \<Rightarrow>
                     (case parseRequestLine ln0 of
                        (method, uri, proto, ok) \<Rightarrow>
                          if \<not> ok then Inl (MalformedRequestLine ln0)
                          else Inr (method, uri, proto))) of
             Inl err \<Rightarrow> (Inl err, inp1)
           | Inr (method, uri, proto) \<Rightarrow>
               (case readHeaders U inp1 Map.empty of
                  (Inl err, inp2) \<Rightarrow> (Inl err, inp2)
                | (Inr hs, inp2) \<Rightarrow>
                    (case (case hs ''content-length'' of
                             None \<Rightarrow> Inr 0
                           | Some str \<Rightarrow> ParseInt str) of
                       Inl err \<Rightarrow> (Inl err, inp2)
                     | Inr cl \<Rightarrow>
                         (Inr \<lparr>Method = method, URI = uri, Proto = proto,
                               Headers = hs, Body = \<lparr>N = cl\<rparr>\<rparr>, inp2)))))"

section \<open>The body reader\<close>

text \<open>
  \<open>bufio.Reader.Read(p)\<close> with \<open>k = len(p)\<close>: nothing for an empty \<open>p\<close>, \<open>EOF\<close> once the
  stream is exhausted, otherwise bytes from the front of the stream. The model delivers
  all \<open>k\<close> bytes when the stream holds them; a real read may deliver fewer at one call,
  which changes how many calls a reader needs and not which bytes it gets.
\<close>

definition bufRead :: "nat \<Rightarrow> string \<Rightarrow> (string \<times> error option) \<times> string" where
  "bufRead k inp =
     (if k = 0 then (([], None), inp)
      else if inp = [] then (([], Some EOF), inp)
      else ((take k inp, None), drop k inp))"

text \<open>
  \<open>io.LimitedReader.Read(p)\<close>: \<open>EOF\<close> when \<open>N <= 0\<close>; otherwise \<open>p\<close> is cut to \<open>N\<close> bytes,
  the underlying reader is read, and \<open>N\<close> decreases by the number of bytes read.
\<close>

definition limitedRead ::
  "nat \<Rightarrow> LimitedReader \<times> string \<Rightarrow> (string \<times> error option) \<times> (LimitedReader \<times> string)"
where
  "limitedRead k s =
     (case s of
        (l, inp) \<Rightarrow>
          if N l \<le> 0 then (([], Some EOF), (l, inp))
          else
            (case bufRead (if int k > N l then nat (N l) else k) inp of
               ((bs, err), inp') \<Rightarrow> ((bs, err), (l\<lparr>N := N l - int (length bs)\<rparr>, inp'))))"

text \<open>A sequence of reads of the body with buffers of the given sizes, and what each returned.\<close>

fun limitedReads ::
  "nat list \<Rightarrow> LimitedReader \<times> string \<Rightarrow> (string \<times> error option) list \<times> (LimitedReader \<times> string)"
where
  "limitedReads [] s = ([], s)"
| "limitedReads (k # ks) s =
     (case limitedRead k s of
        (r, s') \<Rightarrow> (case limitedReads ks s' of (rs, s'') \<Rightarrow> (r # rs, s'')))"

section \<open>Responses\<close>

record Response =
  Status :: int
  Headers :: "string \<rightharpoonup> string"
  proto :: string
  buf :: string

text \<open>\<open>Response.Write\<close> appends to the body buffer and reports the number of bytes taken.\<close>

definition Response_Write :: "string \<Rightarrow> Response \<Rightarrow> (nat \<times> error option) \<times> Response" where
  "Response_Write b res = ((length b, None), res\<lparr>buf := buf res @ b\<rparr>)"

definition statusTitles :: "int \<rightharpoonup> string" where
  "statusTitles =
     map_of [(200, ''OK''), (201, ''Created''), (202, ''Accepted''),
             (203, ''Non-Authoritative Information''), (204, ''No Content'')]"

text \<open>\<open>strconv.Itoa\<close>, which is also how \<open>%v\<close> prints an \<open>int\<close>.\<close>

fun decimal :: "nat \<Rightarrow> string" where
  "decimal n =
     (if n < 10 then [char_of (48 + n)]
      else decimal (n div 10) @ [char_of (48 + n mod 10)])"

declare decimal.simps [simp del]

definition Itoa :: "int \<Rightarrow> string" where
  "Itoa i = (if i < 0 then CHR ''-'' # decimal (nat (- i)) else decimal (nat i))"

text \<open>
  The network connection as the server sees it: \<open>incoming\<close> are the bytes the peer sends,
  \<open>sent\<close> the bytes that have reached the peer, \<open>wcap\<close> the number of further bytes the
  connection takes before a write fails. A write that does not fit delivers what fits
  and reports the error.
\<close>

record netConn =
  incoming :: string
  sent :: string
  wcap :: nat
  closed :: bool

definition Write :: "string \<Rightarrow> netConn \<Rightarrow> (nat \<times> error option) \<times> netConn" where
  "Write b nc =
     (if length b \<le> wcap nc
      then ((length b, None), nc\<lparr>sent := sent nc @ b, wcap := wcap nc - length b\<rparr>)
      else ((wcap nc, Some ErrWrite), nc\<lparr>sent := sent nc @ take (wcap nc) b, wcap := 0\<rparr>))"

text \<open>
  \<open>writeHeadersTo\<close>. \<open>date\<close> is \<open>time.Now()\<close> in UTC in the fixed layout; \<open>keys\<close> is the
  order in which \<open>range\<close> visits the header map, which Go leaves unspecified. The
  handler is taken to leave \<open>Headers\<close> the allocated map \<open>serve\<close> gave it.
\<close>

definition writeHeadersTo ::
  "string \<Rightarrow> ((string \<rightharpoonup> string) \<Rightarrow> string list) \<Rightarrow> Response \<Rightarrow> netConn
     \<Rightarrow> error option \<times> Response \<times> netConn"
where
  "writeHeadersTo date keys res w =
     (case statusTitles (Status res) of
        None \<Rightarrow> (Some (UnsupportedStatus (Status res)), res, w)
      | Some statusText \<Rightarrow>
          let res1 = res\<lparr>Headers := (Headers res)(''Date'' \<mapsto> date)\<rparr>;
              res2 = res1\<lparr>Headers := (Headers res1)(''Content-Length'' \<mapsto>
                                          Itoa (int (length (buf res1))))\<rparr>;
              headers0 = proto res2 @ '' '' @ Itoa (Status res2) @ '' '' @ statusText @ CRLF;
              headers1 = headers0 @
                concat (map (\<lambda>k. k @ '': '' @ index (Headers res2) k @ CRLF)
                            (keys (Headers res2)));
              headers2 = headers1 @ CRLF
          in case Write headers2 w of
               ((n, Some err), w') \<Rightarrow> (Some err, res2, w')
             | ((n, None), w') \<Rightarrow> (None, res2, w'))"

text \<open>
  \<open>bytes.Buffer.WriteTo\<close>: one \<open>Write\<close> of the unread bytes when there are any; the bytes
  written leave the buffer.
\<close>

definition Buffer_WriteTo :: "Response \<Rightarrow> netConn \<Rightarrow> error option \<times> Response \<times> netConn" where
  "Buffer_WriteTo res w =
     (if buf res = [] then (None, res, w)
      else (case Write (buf res) w of
              ((m, Some err), w') \<Rightarrow> (Some err, res\<lparr>buf := drop m (buf res)\<rparr>, w')
            | ((m, None), w') \<Rightarrow> (None, res\<lparr>buf := []\<rparr>, w')))"

definition writeTo ::
  "string \<Rightarrow> ((string \<rightharpoonup> string) \<Rightarrow> string list) \<Rightarrow> Response \<Rightarrow> netConn
     \<Rightarrow> error option \<times> Response \<times> netConn"
where
  "writeTo date keys res w =
     (case writeHeadersTo date keys res w of
        (Some err, res', w') \<Rightarrow> (Some err, res', w')
      | (None, res', w') \<Rightarrow> Buffer_WriteTo res' w')"

section \<open>The connection loop\<close>

text \<open>
  The handler is outside the repository. It is called with the response and the request
  and returns; meanwhile it may read the request body, any number of times and with
  buffers of any size, and it leaves a response (status, headers, body buffer). A handler
  is a function into such programs; \<open>'h\<close> is whatever state the handler object keeps
  between requests.
\<close>

datatype 'h hprog =
  Return 'h Response
  | ReadBody nat "string \<times> error option \<Rightarrow> 'h hprog"

primrec runHandler ::
  "'h hprog \<Rightarrow> LimitedReader \<times> string \<Rightarrow> ('h \<times> Response) \<times> (LimitedReader \<times> string)"
where
  "runHandler (Return h res) s = ((h, res), s)"
| "runHandler (ReadBody k f) s = (case limitedRead k s of (r, s') \<Rightarrow> runHandler (f r) s')"

text \<open>
  What lies outside the program: the standard library's Unicode tables, the clock (the
  formatted time at the \<open>i\<close>-th response) and the order in which \<open>range\<close> visits a map
  (at the \<open>i\<close>-th response).
\<close>

record env = unicode +
  now :: "nat \<Rightarrow> string"
  rangeKeys :: "nat \<Rightarrow> (string \<rightharpoonup> string) \<Rightarrow> string list"

definition bad :: string where
  "bad = ''HTTP/1.1 400 Bad Request'' @ CRLF @ ''Connection: close'' @ CRLF @ CRLF"

text \<open>
  The response \<open>serve\<close> builds before it calls the handler, and the decision whether to
  keep the connection: the statements of \<open>serve\<close> between \<open>readRequest\<close> and \<open>ServeHTTP\<close>.
\<close>

definition newResponse :: "'u unicode_scheme \<Rightarrow> Request \<Rightarrow> Response \<times> bool" where
  "newResponse U req =
     (let res = \<lparr>Status = 200, Headers = Map.empty, proto = Proto req, buf = []\<rparr> in
      case parseConnection U req of
        (keepalive, echo) \<Rightarrow>
          (if echo
           then res\<lparr>Headers := (Headers res)(''Connection'' \<mapsto>
                                    index (Request.Headers req) ''connection'')\<rparr>
           else res,
           keepalive))"

lemma ReadString_not_longer:
  "ReadString inp delim = (r, inp') \<Longrightarrow> length inp' \<le> length inp"
proof -
  have "length (dropWhile (\<lambda>c. c \<noteq> delim) inp) \<le> length inp"
    by (rule length_dropWhile_le)
  moreover assume "ReadString inp delim = (r, inp')"
  ultimately show ?thesis
    by (auto simp: ReadString_def split: if_splits)
qed

lemma readHTTPLine_not_longer:
  "readHTTPLine inp = (r, inp') \<Longrightarrow> length inp' \<le> length inp"
  by (auto simp: readHTTPLine_def split: prod.splits option.splits dest: ReadString_not_longer)

lemma readHeaders_shorter:
  "readHeaders U inp hs = (Inr hs', inp') \<Longrightarrow> length inp' < length inp"
proof (induction U inp hs rule: readHeaders.induct)
  case (1 U inp hs)
  obtain r inp1 where l: "readHTTPLine inp = (r, inp1)"
    by (cases "readHTTPLine inp")
  show ?case
  proof (cases r)
    case (Inl err)
    with l "1.prems" show ?thesis
      by (simp add: readHeaders.simps [of U inp])
  next
    case (Inr ln)
    with l have s: "length inp1 < length inp"
      by (simp add: readHTTPLine_shorter)
    show ?thesis
    proof (cases "length ln = 0")
      case True
      with l Inr "1.prems" s show ?thesis
        by (simp add: readHeaders.simps [of U inp])
    next
      case False
      obtain key val ok where p: "parseHeaderLine U ln = (key, val, ok)"
        by (cases "parseHeaderLine U ln")
      from l Inr False p "1.prems"
      have "readHeaders U inp1 (if ok then hs(key \<mapsto> val) else hs) = (Inr hs', inp')"
        by (simp add: readHeaders.simps [of U inp])
      from "1.IH" [OF l [symmetric] Inr False p [symmetric] refl this] s show ?thesis
        by simp
    qed
  qed
qed

lemma readRequest_shorter:
  "readRequest U inp = (Inr req, inp') \<Longrightarrow> length inp' < length inp"
proof -
  assume a: "readRequest U inp = (Inr req, inp')"
  obtain r0 inp1 where l: "readHTTPLine inp = (r0, inp1)"
    by (cases "readHTTPLine inp")
  then have s: "length inp1 \<le> length inp"
    by (rule readHTTPLine_not_longer)
  from a l obtain hs where "readHeaders U inp1 Map.empty = (Inr hs, inp')"
    by (auto simp: readRequest_def split: sum.splits prod.splits if_splits option.splits)
  then have "length inp' < length inp1"
    by (rule readHeaders_shorter)
  with s show ?thesis
    by simp
qed

lemma bufRead_not_longer:
  "bufRead k inp = (r, inp') \<Longrightarrow> length inp' \<le> length inp"
  by (auto simp: bufRead_def split: if_splits)

lemma limitedRead_not_longer:
  "limitedRead k (l, inp) = (r, (l', inp')) \<Longrightarrow> length inp' \<le> length inp"
  by (auto simp: limitedRead_def split: if_splits prod.splits dest: bufRead_not_longer)

lemma runHandler_not_longer:
  "runHandler p (l, inp) = (r, (l', inp')) \<Longrightarrow> length inp' \<le> length inp"
proof (induction p arbitrary: l inp)
  case (Return h res)
  then show ?case by simp
next
  case (ReadBody k f)
  obtain r1 l1 inp1 where s: "limitedRead k (l, inp) = (r1, (l1, inp1))"
    by (metis surj_pair)
  with ReadBody.prems have "runHandler (f r1) (l1, inp1) = (r, (l', inp'))"
    by simp
  then have "length inp' \<le> length inp1"
    by (rule ReadBody.IH [OF rangeI])
  moreover from s have "length inp1 \<le> length inp"
    by (rule limitedRead_not_longer)
  ultimately show ?case by simp
qed

text \<open>
  The loop of \<open>serve\<close>: \<open>inp\<close> is the buffered reader created before the loop, \<open>i\<close> counts
  the responses, \<open>h\<close> is the handler's state. The loop ends because each parsed request
  takes at least its blank line off a finite input.
\<close>

function serveLoop ::
  "env \<Rightarrow> ('h \<Rightarrow> Response \<Rightarrow> Request \<Rightarrow> 'h hprog) \<Rightarrow> 'h \<Rightarrow> nat \<Rightarrow> string \<Rightarrow> netConn \<Rightarrow> netConn"
where
  "serveLoop E handler h i inp nc =
     (case readRequest E inp of
        (Inl err, inp1) \<Rightarrow> snd (Write bad nc)
      | (Inr req, inp1) \<Rightarrow>
          (case newResponse E req of
             (res, keepalive) \<Rightarrow>
               (case runHandler (handler h res req) (Body req, inp1) of
                  ((h', res'), (l, inp2)) \<Rightarrow>
                    (case writeTo (now E i) (rangeKeys E i) res' nc of
                       (Some err, res'', nc') \<Rightarrow> nc'
                     | (None, res'', nc') \<Rightarrow>
                         if \<not> keepalive then nc'
                         else serveLoop E handler h' (Suc i) inp2 nc'))))"
  by pat_completeness auto
termination
  apply (relation "measure (\<lambda>(E, handler, h, i, inp, nc). length inp)")
   apply simp
  apply simp
  apply (drule readRequest_shorter [OF sym])
  apply clarify
  apply (drule runHandler_not_longer [OF sym])
  apply simp
  done

declare serveLoop.simps [simp del]

text \<open>\<open>serve\<close>: the deferred \<open>Close\<close> runs on every way out of the loop.\<close>

definition serve ::
  "env \<Rightarrow> ('h \<Rightarrow> Response \<Rightarrow> Request \<Rightarrow> 'h hprog) \<Rightarrow> 'h \<Rightarrow> netConn \<Rightarrow> netConn"
where
  "serve E handler h nc = (serveLoop E handler h 0 (incoming nc) nc)\<lparr>closed := True\<rparr>"

section \<open>Concrete inputs for the examples\<close>

text \<open>
  Stand-ins for the standard library's Unicode functions in closed examples; the
  examples use ASCII strings only, on which they are never called.
\<close>

definition plainASCII :: unicode where
  "plainASCII =
     \<lparr>mapToLower = (\<lambda>s. s), trimFuncSpace = (\<lambda>s. s), trimRightFuncSpace = (\<lambda>s. s)\<rparr>"

text \<open>
  An environment for closed examples: a fixed clock, and a \<open>range\<close> order that visits
  those of four header names that the map holds. Two handlers: one writes a body and
  leaves the status 200, the other sets a status that has no title. A connection on
  which the peer sends \<open>inp\<close> and accepts 1000 bytes.
\<close>

definition exampleKeys :: "(string \<rightharpoonup> string) \<Rightarrow> string list" where
  "exampleKeys hs =
     filter (\<lambda>k. hs k \<noteq> None) [''Connection'', ''Content-Length'', ''Content-Type'', ''Date'']"

definition exampleEnv :: env where
  "exampleEnv =
     \<lparr>mapToLower = (\<lambda>s. s), trimFuncSpace = (\<lambda>s. s), trimRightFuncSpace = (\<lambda>s. s),
      now = (\<lambda>i. ''Tue, 03 Nov 2026 10:00:00 GMT''), rangeKeys = (\<lambda>i. exampleKeys)\<rparr>"

definition helloHandler :: "unit \<Rightarrow> Response \<Rightarrow> Request \<Rightarrow> unit hprog" where
  "helloHandler h res req = Return h (snd (Response_Write ''hello'' res))"

definition teapotHandler :: "unit \<Rightarrow> Response \<Rightarrow> Request \<Rightarrow> unit hprog" where
  "teapotHandler h res req = Return h (snd (Response_Write ''tea'' (res\<lparr>Status := 418\<rparr>)))"

definition exampleConn :: "string \<Rightarrow> netConn" where
  "exampleConn inp = \<lparr>incoming = inp, sent = [], wcap = 1000, closed = False\<rparr>"

section \<open>Evaluation rules and facts about the parsers\<close>

lemmas string_eval =
  CRLF_def CR_def LF_def ToLower_def isASCII_def lowerASCII_def asciiSpace_def isDigit_def
  char_of_def bit_Suc_0_iff TrimSuffix_def SplitN.simps plainASCII_def exampleEnv_def

lemmas parse_eval =
  readRequest_def parseRequestLine_def parseHeaderLine_def readHTTPLine_def ReadString_def
  readHeaders.simps ParseInt_def ParseUint_def maxUint64_def

lemma ReadString_found:
  "delim \<notin> set l \<Longrightarrow> ReadString (l @ delim # rest) delim = ((l @ [delim], None), rest)"
proof -
  assume a: "delim \<notin> set l"
  then have "takeWhile (\<lambda>c. c \<noteq> delim) (l @ delim # rest) = l"
    by (induction l) auto
  moreover from a have "dropWhile (\<lambda>c. c \<noteq> delim) (l @ delim # rest) = delim # rest"
    by (induction l) auto
  ultimately show ?thesis
    by (simp add: ReadString_def)
qed

lemma Split_no_sep: "sep \<notin> set a \<Longrightarrow> Split a sep = [a]"
  by (induction a) auto

lemma Split_sep: "sep \<notin> set a \<Longrightarrow> Split (a @ sep # s) sep = a # Split s sep"
  by (induction a) auto

lemma SplitN_2_no_sep: "sep \<notin> set ln \<Longrightarrow> SplitN ln sep 2 = [ln]"
  by (induction ln) (auto simp: SplitN.simps [of _ sep 2])

lemma SplitN_2_sep: "sep \<notin> set K \<Longrightarrow> SplitN (K @ sep # V) sep 2 = [K, V]"
proof (induction K)
  case Nil
  show ?case
    by (simp add: SplitN.simps [of "sep # V" sep 2] SplitN.simps [of V sep "Suc 0"])
next
  case (Cons c K)
  then show ?case
    by (auto simp: SplitN.simps [of "c # K @ sep # V" sep 2])
qed

lemma TrimSuffix_line:
  "TrimSuffix (l @ [LF]) CRLF = (if l \<noteq> [] \<and> last l = CR then butlast l else l @ [LF])"
proof (cases l rule: rev_cases)
  case Nil
  then show ?thesis by (simp add: TrimSuffix_def CRLF_def)
next
  case (snoc l' c)
  then show ?thesis by (auto simp: TrimSuffix_def CRLF_def)
qed

lemma readHTTPLine_line:
  "LF \<notin> set l \<Longrightarrow>
   readHTTPLine (l @ LF # rest) =
     (Inr (if l \<noteq> [] \<and> last l = CR then butlast l else l @ [LF]), rest)"
  by (simp add: readHTTPLine_def ReadString_found TrimSuffix_line)

lemma parseHeaderLine_no_colon:
  "CHR '':'' \<notin> set ln \<Longrightarrow> parseHeaderLine U ln = ([], [], False)"
  by (simp add: parseHeaderLine_def SplitN_2_no_sep)

lemma parseHeaderLine_colon:
  "CHR '':'' \<notin> set K \<Longrightarrow>
   parseHeaderLine U (K @ CHR '':'' # V) = (ToLower U K, TrimSpace U V, True)"
  by (simp add: parseHeaderLine_def SplitN_2_sep)

lemma readHeaders_skip_lf:
  "readHeaders U (LF # rest) hs = readHeaders U rest hs"
proof -
  have "readHTTPLine (LF # rest) = (Inr [LF], rest)"
    using readHTTPLine_line [of "[]" rest] by simp
  moreover have "parseHeaderLine U [LF] = ([], [], False)"
    by (rule parseHeaderLine_no_colon) (simp add: LF_def)
  ultimately show ?thesis
    by (simp add: readHeaders.simps [of U "LF # rest"])
qed

section \<open>Results: the connection decision\<close>

text \<open>
  C1. For a request of version HTTP/1.1 the decision should be to keep the connection
  alive, with no header echoed, unless the connection header is "close". The code
  returns \<open>keepalive = false\<close> for an HTTP/1.1 request without a connection header: the
  \<open>case http11\<close> branch returns only for "close", and every other HTTP/1.1 request
  reaches the final \<open>return false, false\<close>.
\<close>

theorem parseConnection_http11_no_header:
  "parseConnection U
     \<lparr>Method = ''GET'', URI = ''/'', Proto = ''HTTP/1.1'',
      Headers = Map.empty, Body = \<lparr>N = 0\<rparr>\<rparr> = (False, False) \<and>
   parseConnection U
     \<lparr>Method = ''GET'', URI = ''/'', Proto = ''HTTP/1.1'',
      Headers = [''connection'' \<mapsto> ''keep-alive''], Body = \<lparr>N = 0\<rparr>\<rparr> = (False, False) \<and>
   parseConnection U
     \<lparr>Method = ''GET'', URI = ''/'', Proto = ''HTTP/1.1'',
      Headers = [''connection'' \<mapsto> ''Close''], Body = \<lparr>N = 0\<rparr>\<rparr> = (False, True)"
  by (simp add: parseConnection_def http10_def http11_def index_def ToLower_def isASCII_def
        lowerASCII_def char_of_def bit_Suc_0_iff)

text \<open>
  C2. For a request of version HTTP/1.0 the decision is \<open>keepalive = false\<close> with no
  Connection header in the response, unless the lower-cased connection header is
  "keep-alive"; then it is \<open>keepalive = true\<close> and the response starts with the
  request's connection header under the key "Connection".
\<close>

theorem parseConnection_http10:
  assumes "Proto req = http10"
  shows "(ToLower U (index (Request.Headers req) ''connection'') = ''keep-alive'' \<longrightarrow>
            parseConnection U req = (True, True) \<and>
            newResponse U req =
              (\<lparr>Status = 200,
                Headers = [''Connection'' \<mapsto> index (Request.Headers req) ''connection''],
                proto = Proto req, buf = []\<rparr>, True)) \<and>
         (ToLower U (index (Request.Headers req) ''connection'') \<noteq> ''keep-alive'' \<longrightarrow>
            parseConnection U req = (False, False) \<and>
            newResponse U req =
              (\<lparr>Status = 200, Headers = Map.empty, proto = Proto req, buf = []\<rparr>, False))"
  using assms by (simp add: parseConnection_def newResponse_def)

theorem parseConnection_http10_witness:
  "parseConnection plainASCII
     \<lparr>Method = ''GET'', URI = ''/'', Proto = ''HTTP/1.0'',
      Headers = [''connection'' \<mapsto> ''Keep-Alive''], Body = \<lparr>N = 0\<rparr>\<rparr> = (True, True) \<and>
   newResponse plainASCII
     \<lparr>Method = ''GET'', URI = ''/'', Proto = ''HTTP/1.0'',
      Headers = [''connection'' \<mapsto> ''Keep-Alive''], Body = \<lparr>N = 0\<rparr>\<rparr> =
     (\<lparr>Status = 200, Headers = [''Connection'' \<mapsto> ''Keep-Alive''],
       proto = ''HTTP/1.0'', buf = []\<rparr>, True) \<and>
   parseConnection plainASCII
     \<lparr>Method = ''GET'', URI = ''/'', Proto = ''HTTP/1.0'',
      Headers = Map.empty, Body = \<lparr>N = 0\<rparr>\<rparr> = (False, False) \<and>
   newResponse plainASCII
     \<lparr>Method = ''GET'', URI = ''/'', Proto = ''HTTP/1.0'',
      Headers = Map.empty, Body = \<lparr>N = 0\<rparr>\<rparr> =
     (\<lparr>Status = 200, Headers = Map.empty, proto = ''HTTP/1.0'', buf = []\<rparr>, False)"
proof -
  let ?ka = "\<lparr>Method = ''GET'', URI = ''/'', Proto = ''HTTP/1.0'',
      Headers = [''connection'' \<mapsto> ''Keep-Alive''], Body = \<lparr>N = 0\<rparr>\<rparr>"
  let ?no = "\<lparr>Method = ''GET'', URI = ''/'', Proto = ''HTTP/1.0'',
      Headers = Map.empty, Body = \<lparr>N = 0\<rparr>\<rparr>"
  have p1: "Proto ?ka = http10" and p2: "Proto ?no = http10"
    by (simp_all add: http10_def)
  have l1: "ToLower plainASCII (index (Request.Headers ?ka) ''connection'') = ''keep-alive''"
    by (simp add: index_def ToLower_def isASCII_def lowerASCII_def char_of_eq_iff)
  have l2: "ToLower plainASCII (index (Request.Headers ?no) ''connection'') \<noteq> ''keep-alive''"
    by (simp add: index_def ToLower_def)
  from parseConnection_http10 [OF p1, of plainASCII] l1
       parseConnection_http10 [OF p2, of plainASCII] l2
  show ?thesis
    by (simp add: index_def)
qed

section \<open>Results: the line reader and the request parser\<close>

text \<open>
  C10. The line reader removes the terminator only when the line ends with CR LF: a line
  that ends with LF alone comes back with its LF. A line that is just LF has length 1,
  so the header loop does not take it for the empty line that ends the headers: it
  passes over it and reads on.
\<close>

theorem readHTTPLine_strips_only_crlf:
  assumes "LF \<notin> set l"
  shows "readHTTPLine (l @ LF # rest) =
           (Inr (if l \<noteq> [] \<and> last l = CR then butlast l else l @ [LF]), rest) \<and>
         readHTTPLine (LF # rest) = (Inr [LF], rest) \<and>
         length [LF] = 1 \<and>
         readHeaders U (LF # rest) hs = readHeaders U rest hs"
  using assms readHTTPLine_line [of l rest] readHTTPLine_line [of "[]" rest]
  by (simp add: readHeaders_skip_lf)

theorem readHTTPLine_strips_only_crlf_witness:
  "readHTTPLine (''abc'' @ LF # ''x'') = (Inr (''abc'' @ [LF]), ''x'') \<and>
   readHTTPLine ((''abc'' @ [CR]) @ LF # ''x'') = (Inr ''abc'', ''x'') \<and>
   readHeaders plainASCII (LF # CRLF) Map.empty = (Inr Map.empty, [])"
proof -
  have a: "LF \<notin> set ''abc''" and b: "LF \<notin> set (''abc'' @ [CR])"
    by (simp_all add: LF_def CR_def)
  have c: "readHeaders plainASCII CRLF Map.empty = (Inr Map.empty, [])"
    by (simp add: string_eval parse_eval)
  from readHTTPLine_strips_only_crlf [OF a, of "''x''" plainASCII Map.empty]
       readHTTPLine_strips_only_crlf [OF b, of "''x''" plainASCII Map.empty]
       readHTTPLine_strips_only_crlf [OF a, of CRLF plainASCII Map.empty] c
  show ?thesis
    by (simp add: CR_def LF_def)
qed

lemma parseRequestLine_three:
  "length (Split ln (CHR '' '')) = 3 \<Longrightarrow>
   parseRequestLine ln =
     (Split ln (CHR '' '') ! 0, Split ln (CHR '' '') ! 1, Split ln (CHR '' '') ! 2, True)"
  by (simp add: parseRequestLine_def Let_def)

lemma parseRequestLine_other:
  "length (Split ln (CHR '' '')) \<noteq> 3 \<Longrightarrow> parseRequestLine ln = ([], [], [], False)"
  by (simp add: parseRequestLine_def Let_def)

lemma parseRequestLine_fields:
  assumes "CHR '' '' \<notin> set M" "CHR '' '' \<notin> set P" "CHR '' '' \<notin> set V"
  shows "parseRequestLine (M @ CHR '' '' # P @ CHR '' '' # V) = (M, P, V, True)"
proof -
  have "Split (M @ CHR '' '' # P @ CHR '' '' # V) (CHR '' '') = [M, P, V]"
    using assms by (simp add: Split_sep Split_no_sep)
  then show ?thesis
    by (simp add: parseRequestLine_def Let_def)
qed

lemma readRequest_malformed:
  assumes "readHTTPLine inp = (Inr ln, rest)" and "length (Split ln (CHR '' '')) \<noteq> 3"
  shows "readRequest U inp = (Inl (MalformedRequestLine ln), rest)"
  using assms by (simp add: readRequest_def parseRequestLine_other)

lemma readRequest_fields:
  assumes "readHTTPLine inp = (Inr ln, rest)" and "length (Split ln (CHR '' '')) = 3"
    and "readRequest U inp = (Inr req, inp')"
  shows "Method req = Split ln (CHR '' '') ! 0 \<and> URI req = Split ln (CHR '' '') ! 1 \<and>
         Proto req = Split ln (CHR '' '') ! 2"
  using assms
  by (auto simp: readRequest_def parseRequestLine_three split: prod.splits sum.splits option.splits)

lemma readRequest_parsed:
  assumes l: "readHTTPLine inp = (Inr ln, rest)"
    and n: "length (Split ln (CHR '' '')) = 3"
    and h: "readHeaders U rest Map.empty = (Inr hs, inp2)"
    and c: "(case hs ''content-length'' of None \<Rightarrow> Inr 0 | Some str \<Rightarrow> ParseInt str) = Inr cl"
  shows "readRequest U inp =
           (Inr \<lparr>Method = Split ln (CHR '' '') ! 0, URI = Split ln (CHR '' '') ! 1,
                 Proto = Split ln (CHR '' '') ! 2, Headers = hs, Body = \<lparr>N = cl\<rparr>\<rparr>, inp2)"
proof -
  from n have "parseRequestLine ln =
      (Split ln (CHR '' '') ! 0, Split ln (CHR '' '') ! 1, Split ln (CHR '' '') ! 2, True)"
    by (rule parseRequestLine_three)
  with l h c show ?thesis
    by (simp add: readRequest_def)
qed

text \<open>
  C9. A request line that \<open>strings.Split\<close> cuts at the spaces into exactly three fields
  is parsed into method, URI and protocol version equal to those fields; in particular a
  line \<open>M P V\<close> whose three parts hold no space yields exactly \<open>M\<close>, \<open>P\<close> and \<open>V\<close>. When
  such a line is followed by a header section that reads to its empty line, with no
  Content-Length or one that parses, \<open>readRequest\<close> returns the request with these three
  fields, and no request it returns has other ones. With any other number of fields
  \<open>readRequest\<close> fails with the malformed-request-line error.
\<close>

theorem request_line_three_fields:
  assumes "readHTTPLine inp = (Inr ln, rest)"
  shows "(length (Split ln (CHR '' '')) = 3 \<longrightarrow>
            parseRequestLine ln =
              (Split ln (CHR '' '') ! 0, Split ln (CHR '' '') ! 1, Split ln (CHR '' '') ! 2, True) \<and>
            (\<forall>hs inp2 cl.
               readHeaders U rest Map.empty = (Inr hs, inp2) \<and>
               (case hs ''content-length'' of None \<Rightarrow> Inr 0 | Some str \<Rightarrow> ParseInt str) =
                 Inr cl \<longrightarrow>
               readRequest U inp =
                 (Inr \<lparr>Method = Split ln (CHR '' '') ! 0, URI = Split ln (CHR '' '') ! 1,
                       Proto = Split ln (CHR '' '') ! 2, Headers = hs, Body = \<lparr>N = cl\<rparr>\<rparr>,
                  inp2)) \<and>
            (\<forall>req inp'. readRequest U inp = (Inr req, inp') \<longrightarrow>
               Method req = Split ln (CHR '' '') ! 0 \<and> URI req = Split ln (CHR '' '') ! 1 \<and>
               Proto req = Split ln (CHR '' '') ! 2)) \<and>
         (\<forall>M P V. CHR '' '' \<notin> set M \<and> CHR '' '' \<notin> set P \<and> CHR '' '' \<notin> set V \<and>
                  ln = M @ CHR '' '' # P @ CHR '' '' # V \<longrightarrow>
                  parseRequestLine ln = (M, P, V, True)) \<and>
         (length (Split ln (CHR '' '')) \<noteq> 3 \<longrightarrow>
            readRequest U inp = (Inl (MalformedRequestLine ln), rest))"
  using readRequest_fields [OF assms] readRequest_malformed [OF assms]
    readRequest_parsed [OF assms]
  by (auto simp: parseRequestLine_three parseRequestLine_fields)

theorem request_line_three_fields_witness:
  "parseRequestLine ''GET /index.html HTTP/1.1'' = (''GET'', ''/index.html'', ''HTTP/1.1'', True) \<and>
   readRequest plainASCII (''GET /index.html HTTP/1.1'' @ CRLF @ ''Host: x'' @ CRLF @ CRLF) =
     (Inr \<lparr>Method = ''GET'', URI = ''/index.html'', Proto = ''HTTP/1.1'',
           Headers = [''host'' \<mapsto> ''x''], Body = \<lparr>N = 0\<rparr>\<rparr>, []) \<and>
   readRequest plainASCII (''GET /index.html'' @ CRLF @ CRLF) =
     (Inl (MalformedRequestLine ''GET /index.html''), CRLF) \<and>
   readRequest plainASCII (''GET  / HTTP/1.1'' @ CRLF @ CRLF) =
     (Inl (MalformedRequestLine ''GET  / HTTP/1.1''), CRLF)"
proof -
  let ?ok = "''GET /index.html HTTP/1.1'' @ CRLF @ ''Host: x'' @ CRLF @ CRLF"
  have a: "readHTTPLine ?ok = (Inr ''GET /index.html HTTP/1.1'', ''Host: x'' @ CRLF @ CRLF)"
    by (simp add: string_eval parse_eval)
  have b: "readHTTPLine (''GET /index.html'' @ CRLF @ CRLF) = (Inr ''GET /index.html'', CRLF)"
    by (simp add: string_eval parse_eval)
  have c: "readHTTPLine (''GET  / HTTP/1.1'' @ CRLF @ CRLF) = (Inr ''GET  / HTTP/1.1'', CRLF)"
    by (simp add: string_eval parse_eval)
  have n: "length (Split ''GET /index.html HTTP/1.1'' (CHR '' '')) = 3"
    by simp
  have s: "Split ''GET /index.html HTTP/1.1'' (CHR '' '') = [''GET'', ''/index.html'', ''HTTP/1.1'']"
    by simp
  have h: "readHeaders plainASCII (''Host: x'' @ CRLF @ CRLF) Map.empty =
      (Inr [''host'' \<mapsto> ''x''], [])"
    by (simp add: string_eval parse_eval)
  have cl: "(case [''host'' \<mapsto> ''x''] ''content-length'' of
               None \<Rightarrow> Inr 0 | Some str \<Rightarrow> ParseInt str) = Inr 0"
    by simp
  note T = request_line_three_fields [OF a, of plainASCII]
  from T n have 1: "parseRequestLine ''GET /index.html HTTP/1.1'' =
      (Split ''GET /index.html HTTP/1.1'' (CHR '' '') ! 0,
       Split ''GET /index.html HTTP/1.1'' (CHR '' '') ! 1,
       Split ''GET /index.html HTTP/1.1'' (CHR '' '') ! 2, True)"
    by blast
  from T n h cl have 2: "readRequest plainASCII ?ok =
      (Inr \<lparr>Method = Split ''GET /index.html HTTP/1.1'' (CHR '' '') ! 0,
            URI = Split ''GET /index.html HTTP/1.1'' (CHR '' '') ! 1,
            Proto = Split ''GET /index.html HTTP/1.1'' (CHR '' '') ! 2,
            Headers = [''host'' \<mapsto> ''x''], Body = \<lparr>N = 0\<rparr>\<rparr>, [])"
    by blast
  from request_line_three_fields [OF b, of plainASCII]
  have 3: "readRequest plainASCII (''GET /index.html'' @ CRLF @ CRLF) =
      (Inl (MalformedRequestLine ''GET /index.html''), CRLF)"
    by simp
  from request_line_three_fields [OF c, of plainASCII]
  have 4: "readRequest plainASCII (''GET  / HTTP/1.1'' @ CRLF @ CRLF) =
      (Inl (MalformedRequestLine ''GET  / HTTP/1.1''), CRLF)"
    by simp
  from 1 [unfolded s] 2 [unfolded s] 3 4 show ?thesis
    by simp
qed

lemma trimStop_ascii:
  "list_all isASCII r \<Longrightarrow> trimStop U r = rev (dropWhile asciiSpace r)"
  by (induction r) auto

lemma TrimSpace_ascii:
  "list_all isASCII s \<Longrightarrow>
   TrimSpace U s = rev (dropWhile asciiSpace (rev (dropWhile asciiSpace s)))"
proof (induction s)
  case Nil
  show ?case by simp
next
  case (Cons c s)
  show ?case
  proof (cases "asciiSpace c")
    case True
    with Cons show ?thesis by simp
  next
    case False
    from Cons.prems have "list_all isASCII (rev (c # s))"
      by (simp add: list_all_iff)
    then have "trimStop U (rev (c # s)) = rev (dropWhile asciiSpace (rev (c # s)))"
      by (rule trimStop_ascii)
    with False Cons.prems show ?thesis by simp
  qed
qed

lemma readHeaders_store:
  assumes "readHTTPLine inp = (Inr (K @ CHR '':'' # V), inp')" and "CHR '':'' \<notin> set K"
  shows "readHeaders U inp hs = readHeaders U inp' (hs(ToLower U K \<mapsto> TrimSpace U V))"
  using assms by (simp add: readHeaders.simps [of U inp] parseHeaderLine_colon)

lemma readHeaders_drop:
  assumes "readHTTPLine inp = (Inr ln, inp')" and "CHR '':'' \<notin> set ln" and "ln \<noteq> []"
  shows "readHeaders U inp hs = readHeaders U inp' hs"
  using assms by (simp add: readHeaders.simps [of U inp] parseHeaderLine_no_colon)

text \<open>
  C4. A header line with a colon is cut at its first colon only, into \<open>K\<close> and \<open>V\<close>: the
  header loop stores the value \<open>TrimSpace V\<close>, colons inside \<open>V\<close> included, under the key
  \<open>ToLower K\<close>. The key is lower-cased and not trimmed: white space around \<open>K\<close> stays in
  the key, as the line \<open>" Host : a:b "\<close> shows in the closed example after the theorem. A
  non-empty line without a colon is passed over: the loop goes on with the same headers
  and no error.
\<close>

theorem header_line_first_colon:
  "(CHR '':'' \<notin> set K \<longrightarrow>
      parseHeaderLine U (K @ CHR '':'' # V) = (ToLower U K, TrimSpace U V, True) \<and>
      (\<forall>inp inp' hs. readHTTPLine inp = (Inr (K @ CHR '':'' # V), inp') \<longrightarrow>
         readHeaders U inp hs = readHeaders U inp' (hs(ToLower U K \<mapsto> TrimSpace U V)))) \<and>
   (CHR '':'' \<notin> set ln \<longrightarrow>
      parseHeaderLine U ln = ([], [], False) \<and>
      (\<forall>inp inp' hs. readHTTPLine inp = (Inr ln, inp') \<and> ln \<noteq> [] \<longrightarrow>
         readHeaders U inp hs = readHeaders U inp' hs))"
  by (auto simp: parseHeaderLine_colon parseHeaderLine_no_colon
           intro: readHeaders_store readHeaders_drop)

theorem header_line_first_colon_witness:
  "parseHeaderLine plainASCII (''Host'' @ CHR '':'' # '' a:b '') = (''host'', ''a:b'', True) \<and>
   readHeaders plainASCII ((''Host'' @ CHR '':'' # '' a:b '') @ CRLF @ CRLF) Map.empty =
     (Inr [''host'' \<mapsto> ''a:b''], []) \<and>
   parseHeaderLine plainASCII ''no colon here'' = ([], [], False) \<and>
   readHeaders plainASCII (''no colon here'' @ CRLF @ CRLF) Map.empty = (Inr Map.empty, [])"
proof -
  have k: "CHR '':'' \<notin> set ''Host''"
    and n: "CHR '':'' \<notin> set ''no colon here''"
    and ne: "''no colon here'' \<noteq> []"
    by simp_all
  have a: "readHTTPLine ((''Host'' @ CHR '':'' # '' a:b '') @ CRLF @ CRLF) =
             (Inr (''Host'' @ CHR '':'' # '' a:b ''), CRLF)"
    by (simp add: string_eval parse_eval)
  have b: "readHTTPLine (''no colon here'' @ CRLF @ CRLF) = (Inr ''no colon here'', CRLF)"
    by (simp add: string_eval parse_eval)
  have e: "readHeaders plainASCII CRLF hs = (Inr hs, [])" for hs
    by (simp add: string_eval parse_eval)
  have l: "ToLower plainASCII ''Host'' = ''host''"
    by (simp add: string_eval)
  have t: "TrimSpace plainASCII '' a:b '' = ''a:b''"
    by (simp add: string_eval)
  note T = header_line_first_colon [of "''Host''" plainASCII "'' a:b ''" "''no colon here''"]
  from T k have "parseHeaderLine plainASCII (''Host'' @ CHR '':'' # '' a:b '') =
      (ToLower plainASCII ''Host'', TrimSpace plainASCII '' a:b '', True)"
    by blast
  then have c1: "parseHeaderLine plainASCII (''Host'' @ CHR '':'' # '' a:b '') =
      (''host'', ''a:b'', True)"
    by (simp only: l t)
  from T k a have "readHeaders plainASCII ((''Host'' @ CHR '':'' # '' a:b '') @ CRLF @ CRLF) Map.empty =
      readHeaders plainASCII CRLF (Map.empty(ToLower plainASCII ''Host'' \<mapsto> TrimSpace plainASCII '' a:b ''))"
    by blast
  then have c2: "readHeaders plainASCII ((''Host'' @ CHR '':'' # '' a:b '') @ CRLF @ CRLF) Map.empty =
      (Inr [''host'' \<mapsto> ''a:b''], [])"
    by (simp only: l t e)
  from T n have c3: "parseHeaderLine plainASCII ''no colon here'' = ([], [], False)"
    by blast
  from T n b ne have "readHeaders plainASCII (''no colon here'' @ CRLF @ CRLF) Map.empty =
      readHeaders plainASCII CRLF Map.empty"
    by blast
  then have c4: "readHeaders plainASCII (''no colon here'' @ CRLF @ CRLF) Map.empty =
      (Inr Map.empty, [])"
    by (simp only: e)
  from c1 c2 c3 c4 show ?thesis
    by blast
qed

theorem header_key_not_trimmed:
  "parseHeaderLine plainASCII '' Host : a:b '' = ('' host '', ''a:b'', True) \<and>
   ToLower plainASCII (TrimSpace plainASCII '' Host '') = ''host'' \<and>
   fst (parseHeaderLine plainASCII '' Host : a:b '') \<noteq>
     ToLower plainASCII (TrimSpace plainASCII '' Host '')"
  by (simp add: string_eval parse_eval)

lemma readRequest_after_headers:
  assumes hd: "readHeaders U (snd (readHTTPLine inp)) Map.empty = (Inr hs, inp2)"
    and ok: "\<forall>ln0. fst (readHTTPLine inp) = Inr ln0 \<longrightarrow> length (Split ln0 (CHR '' '')) = 3"
  shows "\<exists>method uri proto.
           readRequest U inp =
             (case (case hs ''content-length'' of None \<Rightarrow> Inr 0 | Some str \<Rightarrow> ParseInt str) of
                Inl err \<Rightarrow> (Inl err, inp2)
              | Inr cl \<Rightarrow>
                  (Inr \<lparr>Method = method, URI = uri, Proto = proto,
                        Headers = hs, Body = \<lparr>N = cl\<rparr>\<rparr>, inp2))"
proof -
  obtain r0 inp1 where l: "readHTTPLine inp = (r0, inp1)"
    by (cases "readHTTPLine inp")
  show ?thesis
  proof (cases r0)
    case (Inl err)
    with l hd show ?thesis
      by (auto simp add: readRequest_def)
  next
    case (Inr ln0)
    with l ok have "length (Split ln0 (CHR '' '')) = 3"
      by simp
    then have "parseRequestLine ln0 =
        (Split ln0 (CHR '' '') ! 0, Split ln0 (CHR '' '') ! 1, Split ln0 (CHR '' '') ! 2, True)"
      by (rule parseRequestLine_three)
    with l Inr hd show ?thesis
      by (auto simp add: readRequest_def)
  qed
qed

text \<open>
  C8. Once the request line has been accepted and the header section has been read to
  its empty line: when the headers hold no "content-length" the request is returned
  with the body limit 0; when they hold one that \<open>strconv.ParseInt\<close> rejects,
  \<open>readRequest\<close> fails with that error; when they hold one that parses, the body limit
  is its value.
\<close>

theorem content_length_body_limit:
  assumes "readHeaders U (snd (readHTTPLine inp)) Map.empty = (Inr hs, inp2)"
    and "\<forall>ln0. fst (readHTTPLine inp) = Inr ln0 \<longrightarrow> length (Split ln0 (CHR '' '')) = 3"
  shows "(hs ''content-length'' = None \<longrightarrow>
            (\<exists>req. readRequest U inp = (Inr req, inp2) \<and> Request.Headers req = hs \<and>
                   N (Body req) = 0)) \<and>
         (\<forall>str err. hs ''content-length'' = Some str \<and> ParseInt str = Inl err \<longrightarrow>
            readRequest U inp = (Inl err, inp2)) \<and>
         (\<forall>str n. hs ''content-length'' = Some str \<and> ParseInt str = Inr n \<longrightarrow>
            (\<exists>req. readRequest U inp = (Inr req, inp2) \<and> Request.Headers req = hs \<and>
                   N (Body req) = n))"
  using readRequest_after_headers [OF assms] by auto

theorem content_length_body_limit_witness:
  "readRequest plainASCII (''GET / HTTP/1.0'' @ CRLF @ ''Host: x'' @ CRLF @ CRLF @ ''hello'') =
     (Inr \<lparr>Method = ''GET'', URI = ''/'', Proto = ''HTTP/1.0'',
           Headers = [''host'' \<mapsto> ''x''], Body = \<lparr>N = 0\<rparr>\<rparr>, ''hello'') \<and>
   readRequest plainASCII (''GET / HTTP/1.0'' @ CRLF @ ''Content-Length: 5x'' @ CRLF @ CRLF @ ''hello'') =
     (Inl ErrSyntax, ''hello'')"
proof -
  let ?a = "''GET / HTTP/1.0'' @ CRLF @ ''Host: x'' @ CRLF @ CRLF @ ''hello''"
  let ?b = "''GET / HTTP/1.0'' @ CRLF @ ''Content-Length: 5x'' @ CRLF @ CRLF @ ''hello''"
  have a1: "readHeaders plainASCII (snd (readHTTPLine ?a)) Map.empty =
              (Inr [''host'' \<mapsto> ''x''], ''hello'')"
    by (simp add: string_eval parse_eval)
  have a2: "\<forall>ln0. fst (readHTTPLine ?a) = Inr ln0 \<longrightarrow> length (Split ln0 (CHR '' '')) = 3"
    by (simp add: string_eval parse_eval)
  have b1: "readHeaders plainASCII (snd (readHTTPLine ?b)) Map.empty =
              (Inr [''content-length'' \<mapsto> ''5x''], ''hello'')"
    by (simp add: string_eval parse_eval)
  have b2: "\<forall>ln0. fst (readHTTPLine ?b) = Inr ln0 \<longrightarrow> length (Split ln0 (CHR '' '')) = 3"
    by (simp add: string_eval parse_eval)
  have p: "ParseInt ''5x'' = Inl ErrSyntax"
    by (simp add: string_eval parse_eval)
  from content_length_body_limit [OF a1 a2]
  obtain req where r: "readRequest plainASCII ?a = (Inr req, ''hello'')"
      and h: "Request.Headers req = [''host'' \<mapsto> ''x'']" and n: "N (Body req) = 0"
    by auto
  have m: "readRequest plainASCII ?a =
     (Inr \<lparr>Method = ''GET'', URI = ''/'', Proto = ''HTTP/1.0'',
           Headers = [''host'' \<mapsto> ''x''], Body = \<lparr>N = 0\<rparr>\<rparr>, ''hello'')"
    by (simp add: string_eval parse_eval)
  from content_length_body_limit [OF b1 b2] p
  have "readRequest plainASCII ?b = (Inl ErrSyntax, ''hello'')"
    by simp
  with m r show ?thesis
    by simp
qed

section \<open>Results: the body reader\<close>

lemma limitedRead_eof:
  "N l \<le> 0 \<Longrightarrow> limitedRead k (l, inp) = (([], Some EOF), (l, inp))"
  by (simp add: limitedRead_def)

lemma limitedRead_prefix:
  assumes "limitedRead k (l, inp) = ((bs, err), (l', inp'))"
  shows "bs @ inp' = inp \<and> int (length bs) \<le> max 0 (N l) \<and> N l' = N l - int (length bs)"
proof (cases "N l \<le> 0")
  case True
  with assms show ?thesis
    by (simp add: limitedRead_def)
next
  case False
  define k' where "k' = (if int k > N l then nat (N l) else k)"
  from False have le: "int k' \<le> N l"
    by (simp add: k'_def)
  obtain bs1 err1 inp1 where b: "bufRead k' inp = ((bs1, err1), inp1)"
    by (metis surj_pair)
  then have "bs1 @ inp1 = inp \<and> length bs1 \<le> k'"
    by (auto simp: bufRead_def split: if_splits)
  moreover from assms False b have "bs = bs1" "inp' = inp1" "N l' = N l - int (length bs1)"
    by (auto simp: limitedRead_def k'_def)
  ultimately show ?thesis
    using le by auto
qed

lemma limitedReads_prefix:
  "limitedReads ks (l, inp) = (rs, (l', inp')) \<Longrightarrow>
   concat (map fst rs) @ inp' = inp \<and>
   int (length (concat (map fst rs))) \<le> max 0 (N l) \<and>
   N l' = N l - int (length (concat (map fst rs)))"
proof (induction ks arbitrary: l inp rs)
  case Nil
  then show ?case by auto
next
  case (Cons k ks)
  obtain bs err l1 inp1 where r: "limitedRead k (l, inp) = ((bs, err), (l1, inp1))"
    by (metis surj_pair)
  obtain rs1 where s: "limitedReads ks (l1, inp1) = (rs1, (l', inp'))"
    and rs: "rs = (bs, err) # rs1"
    using Cons.prems r by (auto split: prod.splits)
  from limitedRead_prefix [OF r]
  have 1: "bs @ inp1 = inp" "int (length bs) \<le> max 0 (N l)" "N l1 = N l - int (length bs)"
    by simp_all
  from Cons.IH [OF s]
  have 2: "concat (map fst rs1) @ inp' = inp1"
    "int (length (concat (map fst rs1))) \<le> max 0 (N l1)"
    "N l' = N l1 - int (length (concat (map fst rs1)))"
    by simp_all
  from 1 2 rs show ?case
    by auto
qed

lemma runHandler_drop:
  "runHandler p (l, inp) = (r, (l', inp')) \<Longrightarrow>
   \<exists>m. int m \<le> max 0 (N l) \<and> inp' = drop m inp \<and> N l' = N l - int m"
proof (induction p arbitrary: l inp)
  case (Return h res)
  then have "int 0 \<le> max 0 (N l) \<and> inp' = drop 0 inp \<and> N l' = N l - int 0"
    by simp
  then show ?case by blast
next
  case (ReadBody k f)
  obtain bs err l1 inp1 where s: "limitedRead k (l, inp) = ((bs, err), (l1, inp1))"
    by (metis surj_pair)
  with ReadBody.prems have "runHandler (f (bs, err)) (l1, inp1) = (r, (l', inp'))"
    by simp
  from ReadBody.IH [OF rangeI this]
  obtain m where m: "int m \<le> max 0 (N l1)" "inp' = drop m inp1" "N l' = N l1 - int m"
    by blast
  from limitedRead_prefix [OF s]
  have 1: "bs @ inp1 = inp" "int (length bs) \<le> max 0 (N l)" "N l1 = N l - int (length bs)"
    by simp_all
  from 1 have "inp1 = drop (length bs) inp"
    by auto
  with m 1 have "int (length bs + m) \<le> max 0 (N l) \<and> inp' = drop (length bs + m) inp \<and>
      N l' = N l - int (length bs + m)"
    by (auto simp: add.commute)
  then show ?case by blast
qed

lemma readRequest_limit:
  assumes "readRequest U inp = (Inr req, inp1)"
  shows "(case Request.Headers req ''content-length'' of
            None \<Rightarrow> N (Body req) = 0
          | Some str \<Rightarrow> ParseInt str = Inr (N (Body req)))"
  using assms
  by (auto simp: readRequest_def split: prod.splits sum.splits option.splits if_splits)

text \<open>
  C6. For a request that \<open>readRequest\<close> returned, with body limit \<open>N\<close> (the parsed
  Content-Length, or 0 without one): whatever sequence of reads is made on the body,
  the bytes they return are a prefix of the remaining connection input of length at most
  \<open>N\<close> (none when \<open>N\<close> is negative), the rest of the input stays in the buffer, and once
  \<open>N\<close> bytes have been returned every further read reports \<open>EOF\<close> and leaves the buffer as
  it is, whatever it still holds. After any handler has run, the buffer is the input
  without at most \<open>N\<close> leading bytes: the bytes beyond the limit are there for the next
  \<open>readRequest\<close>.
\<close>

theorem body_reader_limited:
  assumes "readRequest U inp = (Inr req, inp1)"
  shows "(\<forall>ks rs l' inp'.
            limitedReads ks (Body req, inp1) = (rs, (l', inp')) \<longrightarrow>
              concat (map fst rs) @ inp' = inp1 \<and>
              int (length (concat (map fst rs))) \<le> max 0 (N (Body req)) \<and>
              (N (Body req) \<le> int (length (concat (map fst rs))) \<longrightarrow>
                 (\<forall>k. limitedRead k (l', inp') = (([], Some EOF), (l', inp'))))) \<and>
         (\<forall>p r l' inp2.
            runHandler p (Body req, inp1) = (r, (l', inp2)) \<longrightarrow>
              (\<exists>m. int m \<le> max 0 (N (Body req)) \<and> inp2 = drop m inp1)) \<and>
         (\<forall>str. Request.Headers req ''content-length'' = Some str \<longrightarrow>
            ParseInt str = Inr (N (Body req))) \<and>
         (Request.Headers req ''content-length'' = None \<longrightarrow> N (Body req) = 0)"
proof (intro conjI allI impI)
  fix ks rs l' inp'
  assume a: "limitedReads ks (Body req, inp1) = (rs, (l', inp'))"
  from limitedReads_prefix [OF a]
  show "concat (map fst rs) @ inp' = inp1"
    and "int (length (concat (map fst rs))) \<le> max 0 (N (Body req))"
    by simp_all
  fix k
  assume "N (Body req) \<le> int (length (concat (map fst rs)))"
  with limitedReads_prefix [OF a] have "N l' \<le> 0"
    by simp
  then show "limitedRead k (l', inp') = (([], Some EOF), (l', inp'))"
    by (rule limitedRead_eof)
next
  fix p :: "'h hprog" and r l' inp2
  assume "runHandler p (Body req, inp1) = (r, (l', inp2))"
  from runHandler_drop [OF this]
  show "\<exists>m. int m \<le> max 0 (N (Body req)) \<and> inp2 = drop m inp1"
    by blast
next
  fix str
  assume "Request.Headers req ''content-length'' = Some str"
  with readRequest_limit [OF assms] show "ParseInt str = Inr (N (Body req))"
    by simp
next
  assume "Request.Headers req ''content-length'' = None"
  with readRequest_limit [OF assms] show "N (Body req) = 0"
    by simp
qed

theorem body_reader_limited_witness:
  "readRequest plainASCII
     (''POST /a HTTP/1.0'' @ CRLF @ ''Content-Length: 5'' @ CRLF @ CRLF @ ''helloNEXT'') =
     (Inr \<lparr>Method = ''POST'', URI = ''/a'', Proto = ''HTTP/1.0'',
           Headers = [''content-length'' \<mapsto> ''5''], Body = \<lparr>N = 5\<rparr>\<rparr>, ''helloNEXT'') \<and>
   limitedReads [3, 10, 1] (\<lparr>N = 5\<rparr>, ''helloNEXT'') =
     ([(''hel'', None), (''lo'', None), ([], Some EOF)], (\<lparr>N = 0\<rparr>, ''NEXT'')) \<and>
   limitedRead 4 (\<lparr>N = 0\<rparr>, ''NEXT'') = (([], Some EOF), (\<lparr>N = 0\<rparr>, ''NEXT'')) \<and>
   ParseInt ''5'' = Inr 5"
proof -
  let ?req = "\<lparr>Method = ''POST'', URI = ''/a'', Proto = ''HTTP/1.0'',
           Headers = [''content-length'' \<mapsto> ''5''], Body = \<lparr>N = 5\<rparr>\<rparr>"
  have r: "readRequest plainASCII
      (''POST /a HTTP/1.0'' @ CRLF @ ''Content-Length: 5'' @ CRLF @ CRLF @ ''helloNEXT'') =
      (Inr ?req, ''helloNEXT'')"
    by (simp add: string_eval parse_eval)
  have e: "limitedReads [3, 10, 1] (Body ?req, ''helloNEXT'') =
      ([(''hel'', None), (''lo'', None), ([], Some EOF)], (\<lparr>N = 0\<rparr>, ''NEXT''))"
    by (simp add: limitedRead_def bufRead_def)
  note T = body_reader_limited [OF r]
  from T e have "N (Body ?req) \<le>
        int (length (concat (map fst [(''hel'', None), (''lo'', None), ([], Some EOF)]))) \<longrightarrow>
      (\<forall>k. limitedRead k (\<lparr>N = 0\<rparr>, ''NEXT'') = (([], Some EOF), (\<lparr>N = 0\<rparr>, ''NEXT'')))"
    by blast
  then have c3: "limitedRead 4 (\<lparr>N = 0\<rparr>, ''NEXT'') = (([], Some EOF), (\<lparr>N = 0\<rparr>, ''NEXT''))"
    by simp
  have "Request.Headers ?req ''content-length'' = Some ''5''"
    by simp
  with T have "ParseInt ''5'' = Inr (N (Body ?req))"
    by blast
  then have c4: "ParseInt ''5'' = Inr 5"
    by simp
  from r e c3 c4 show ?thesis
    by simp
qed

section \<open>Results: failures in the connection loop\<close>

lemma Write_sent:
  "Write b nc = (r, nc') \<Longrightarrow>
   nc' = nc\<lparr>sent := sent nc @ take (wcap nc) b, wcap := wcap nc - length b\<rparr> \<and>
   (snd r = None) = (length b \<le> wcap nc)"
  by (auto simp: Write_def split: if_splits)

lemma serveLoop_bad:
  assumes "fst (readRequest E inp) = Inl err"
  shows "serveLoop E handler h i inp nc = snd (Write bad nc)"
proof -
  obtain inp1 where "readRequest E inp = (Inl err, inp1)"
    using assms by (cases "readRequest E inp") auto
  then show ?thesis
    by (simp add: serveLoop.simps [of E handler h i inp nc])
qed

text \<open>
  C3. Whenever \<open>readRequest\<close> fails, at any round of the loop and whatever the error,
  the loop makes one write of the fixed bytes \<open>bad\<close>, an HTTP/1.1 status line whatever
  version the request named, and returns; \<open>serve\<close> then closes the connection. The peer
  receives \<open>bad\<close> whole when the connection still takes that many bytes.
\<close>

theorem serve_bad_request:
  assumes "fst (readRequest E inp) = Inl err"
  shows "serveLoop E handler h i inp nc =
           nc\<lparr>sent := sent nc @ take (wcap nc) bad, wcap := wcap nc - length bad\<rparr> \<and>
         (inp = incoming nc \<longrightarrow>
            serve E handler h nc =
              nc\<lparr>sent := sent nc @ take (wcap nc) bad, wcap := wcap nc - length bad,
                 closed := True\<rparr>) \<and>
         (length bad \<le> wcap nc \<longrightarrow> sent (serveLoop E handler h i inp nc) = sent nc @ bad) \<and>
         bad = ''HTTP/1.1 400 Bad Request'' @ [CHR 0x0D, CHR 0x0A] @
               ''Connection: close'' @ [CHR 0x0D, CHR 0x0A, CHR 0x0D, CHR 0x0A]"
proof -
  obtain r nc' where w: "Write bad nc = (r, nc')"
    by (cases "Write bad nc")
  from Write_sent [OF w] w
  have g: "serveLoop E handler h j inp nc =
      nc\<lparr>sent := sent nc @ take (wcap nc) bad, wcap := wcap nc - length bad\<rparr>" for j
    by (simp add: serveLoop_bad [OF assms])
  then have 1: "serveLoop E handler h i inp nc =
      nc\<lparr>sent := sent nc @ take (wcap nc) bad, wcap := wcap nc - length bad\<rparr>" .
  from g [of 0] have 2: "inp = incoming nc \<longrightarrow>
      serve E handler h nc =
        nc\<lparr>sent := sent nc @ take (wcap nc) bad, wcap := wcap nc - length bad, closed := True\<rparr>"
    by (auto simp: serve_def)
  have 3: "bad = ''HTTP/1.1 400 Bad Request'' @ [CHR 0x0D, CHR 0x0A] @
               ''Connection: close'' @ [CHR 0x0D, CHR 0x0A, CHR 0x0D, CHR 0x0A]"
    by (simp add: bad_def CRLF_def CR_def LF_def)
  from 1 2 3 show ?thesis
    by simp
qed

theorem serve_bad_request_witness:
  "serve exampleEnv helloHandler () (exampleConn (''GET /index.html'' @ CRLF @ CRLF)) =
     \<lparr>incoming = ''GET /index.html'' @ CRLF @ CRLF, sent = bad, wcap = 953, closed = True\<rparr> \<and>
   serve exampleEnv helloHandler () (exampleConn (''GET / HTTP/1.0'' @ CRLF @ ''Host: x'')) =
     \<lparr>incoming = ''GET / HTTP/1.0'' @ CRLF @ ''Host: x'', sent = bad, wcap = 953,
      closed = True\<rparr> \<and>
   serve exampleEnv helloHandler ()
       (exampleConn (''GET / HTTP/1.0'' @ CRLF @ ''Content-Length: five'' @ CRLF @ CRLF)) =
     \<lparr>incoming = ''GET / HTTP/1.0'' @ CRLF @ ''Content-Length: five'' @ CRLF @ CRLF,
      sent = bad, wcap = 953, closed = True\<rparr>"
proof -
  let ?a = "''GET /index.html'' @ CRLF @ CRLF"
  let ?b = "''GET / HTTP/1.0'' @ CRLF @ ''Host: x''"
  let ?c = "''GET / HTTP/1.0'' @ CRLF @ ''Content-Length: five'' @ CRLF @ CRLF"
  have a: "fst (readRequest exampleEnv ?a) = Inl (MalformedRequestLine ''GET /index.html'')"
    by (simp add: string_eval parse_eval)
  have b: "fst (readRequest exampleEnv ?b) = Inl EOF"
    by (simp add: string_eval parse_eval)
  have c: "fst (readRequest exampleEnv ?c) = Inl ErrSyntax"
    by (simp add: string_eval parse_eval)
  have l: "length bad = 47"
    by (simp add: bad_def CRLF_def)
  have i: "incoming (exampleConn s) = s" for s
    by (simp add: exampleConn_def)
  from serve_bad_request [OF a, of helloHandler "()" 0 "exampleConn ?a"]
  have 1: "serve exampleEnv helloHandler () (exampleConn ?a) =
      \<lparr>incoming = ?a, sent = bad, wcap = 953, closed = True\<rparr>"
    by (simp add: exampleConn_def l)
  from serve_bad_request [OF b, of helloHandler "()" 0 "exampleConn ?b"]
  have 2: "serve exampleEnv helloHandler () (exampleConn ?b) =
      \<lparr>incoming = ?b, sent = bad, wcap = 953, closed = True\<rparr>"
    by (simp add: exampleConn_def l)
  from serve_bad_request [OF c, of helloHandler "()" 0 "exampleConn ?c"]
  have 3: "serve exampleEnv helloHandler () (exampleConn ?c) =
      \<lparr>incoming = ?c, sent = bad, wcap = 953, closed = True\<rparr>"
    by (simp add: exampleConn_def l)
  from 1 2 3 show ?thesis
    by simp
qed

lemma writeTo_unsupported:
  "statusTitles (Status res) = None \<Longrightarrow>
   writeTo date keys res w = (Some (UnsupportedStatus (Status res)), res, w)"
  by (simp add: writeTo_def writeHeadersTo_def)

lemma serveLoop_unsupported:
  assumes "readRequest E inp = (Inr req, inp1)"
    and "runHandler (handler h (fst (newResponse E req)) req) (Body req, inp1) = ((h', res), s')"
    and "statusTitles (Status res) = None"
  shows "serveLoop E handler h i inp nc = nc"
proof -
  obtain res0 keepalive where n: "newResponse E req = (res0, keepalive)"
    by (cases "newResponse E req")
  obtain l inp2 where s: "s' = (l, inp2)"
    by (cases s')
  from assms n s show ?thesis
    by (simp add: serveLoop.simps [of E handler h i inp nc] writeTo_unsupported)
qed

text \<open>
  C5. A response whose status code has no entry in \<open>statusTitles\<close> is not serialized:
  \<open>writeHeadersTo\<close> and \<open>writeTo\<close> return the unsupported-status error with the
  response and the connection exactly as they were, nothing written. In the loop, when
  the handler leaves such a response, \<open>serveLoop\<close> returns the connection unchanged and
  \<open>serve\<close> closes it: the loop ends by an ordinary return.
\<close>

theorem unsupported_status_aborts:
  assumes "statusTitles (Status res) = None"
  shows "writeHeadersTo date keys res w = (Some (UnsupportedStatus (Status res)), res, w) \<and>
         writeTo date keys res w = (Some (UnsupportedStatus (Status res)), res, w) \<and>
         (\<forall>(E::env) handler h i inp nc req inp1 h' s'.
            readRequest E inp = (Inr req, inp1) \<and>
            runHandler (handler h (fst (newResponse E req)) req) (Body req, inp1) =
              ((h', res), s') \<longrightarrow>
            serveLoop E handler h i inp nc = nc \<and>
            (inp = incoming nc \<longrightarrow> serve E handler h nc = nc\<lparr>closed := True\<rparr>))"
proof (intro conjI allI impI)
  show "writeHeadersTo date keys res w = (Some (UnsupportedStatus (Status res)), res, w)"
    using assms by (simp add: writeHeadersTo_def)
  show "writeTo date keys res w = (Some (UnsupportedStatus (Status res)), res, w)"
    using assms by (rule writeTo_unsupported)
next
  fix E :: env and handler :: "'h \<Rightarrow> Response \<Rightarrow> Request \<Rightarrow> 'h hprog" and h :: 'h and i :: nat
    and inp nc req inp1 and h' :: 'h and s'
  assume a: "readRequest E inp = (Inr req, inp1) \<and>
    runHandler (handler h (fst (newResponse E req)) req) (Body req, inp1) = ((h', res), s')"
  then have g: "serveLoop E handler h j inp nc = nc" for j
    using assms by (auto intro: serveLoop_unsupported)
  then show "serveLoop E handler h i inp nc = nc" .
  assume "inp = incoming nc"
  with g [of 0] show "serve E handler h nc = nc\<lparr>closed := True\<rparr>"
    by (simp add: serve_def)
qed

theorem unsupported_status_aborts_witness:
  "statusTitles 418 = None \<and>
   serve exampleEnv teapotHandler () (exampleConn (''GET / HTTP/1.1'' @ CRLF @ CRLF)) =
     \<lparr>incoming = ''GET / HTTP/1.1'' @ CRLF @ CRLF, sent = [], wcap = 1000, closed = True\<rparr>"
proof -
  let ?inp = "''GET / HTTP/1.1'' @ CRLF @ CRLF"
  let ?req = "\<lparr>Method = ''GET'', URI = ''/'', Proto = ''HTTP/1.1'',
               Headers = Map.empty, Body = \<lparr>N = 0\<rparr>\<rparr>"
  let ?res = "\<lparr>Status = 418, Headers = Map.empty, proto = ''HTTP/1.1'', buf = ''tea''\<rparr>"
  have s: "statusTitles (Status ?res) = None"
    by (simp add: statusTitles_def)
  have r: "readRequest exampleEnv ?inp = (Inr ?req, [])"
    by (simp add: string_eval parse_eval)
  have n: "fst (newResponse exampleEnv ?req) =
      \<lparr>Status = 200, Headers = Map.empty, proto = ''HTTP/1.1'', buf = []\<rparr>"
    by (simp add: newResponse_def parseConnection_def http10_def http11_def index_def
          string_eval)
  have h: "runHandler (teapotHandler () (fst (newResponse exampleEnv ?req)) ?req)
             (Body ?req, []) = (((), ?res), (\<lparr>N = 0\<rparr>, []))"
    by (simp add: n teapotHandler_def Response_Write_def)
  have i: "?inp = incoming (exampleConn ?inp)"
    by (simp add: exampleConn_def)
  note T0 = unsupported_status_aborts [OF s, of "[]" exampleKeys "exampleConn ?inp",
      THEN conjunct2, THEN conjunct2, rule_format]
  note T = T0 [where handler = teapotHandler and h = "()", OF conjI, OF r h]
  from T [of 0 "exampleConn ?inp"] i
  have "serve exampleEnv teapotHandler () (exampleConn ?inp) =
      (exampleConn ?inp)\<lparr>closed := True\<rparr>"
    by blast
  with s show ?thesis
    by (simp add: exampleConn_def)
qed

section \<open>Results: serializing the response\<close>

lemma header_line_occurs:
  assumes "k \<in> set ks" and "hs k = Some v"
  shows "\<exists>a b. pre @ concat (map (\<lambda>k. k @ '': '' @ index hs k @ CRLF) ks) @ post =
               a @ (k @ '': '' @ v @ CRLF) @ b"
proof -
  from assms(1) obtain xs ys where "ks = xs @ k # ys"
    by (auto dest: split_list)
  moreover from assms(2) have "index hs k = v"
    by (simp add: index_def)
  ultimately
  have "pre @ concat (map (\<lambda>k. k @ '': '' @ index hs k @ CRLF) ks) @ post =
      (pre @ concat (map (\<lambda>k. k @ '': '' @ index hs k @ CRLF) xs)) @
      (k @ '': '' @ v @ CRLF) @
      (concat (map (\<lambda>k. k @ '': '' @ index hs k @ CRLF) ys) @ post)"
    by simp
  then show ?thesis by blast
qed

lemma writeHeadersTo_supported:
  assumes "statusTitles (Status res) = Some title"
    and "hs' = (Headers res)(''Date'' \<mapsto> date,
                             ''Content-Length'' \<mapsto> Itoa (int (length (buf res))))"
    and "head = proto res @ '' '' @ Itoa (Status res) @ '' '' @ title @ CRLF @
                concat (map (\<lambda>k. k @ '': '' @ index hs' k @ CRLF) (keys hs')) @ CRLF"
  shows "writeHeadersTo date keys res w =
           (snd (fst (Write head w)), res\<lparr>Headers := hs'\<rparr>, snd (Write head w))"
  using assms
  by (cases "Write head w")
     (auto simp: writeHeadersTo_def Let_def split: option.splits prod.splits)

lemma writeTo_supported:
  assumes st: "statusTitles (Status res) = Some title"
    and hs: "hs' = (Headers res)(''Date'' \<mapsto> date,
                                 ''Content-Length'' \<mapsto> Itoa (int (length (buf res))))"
    and hd: "head = proto res @ '' '' @ Itoa (Status res) @ '' '' @ title @ CRLF @
                    concat (map (\<lambda>k. k @ '': '' @ index hs' k @ CRLF) (keys hs')) @ CRLF"
    and w: "writeTo date keys res w = (err, res', w')"
  shows "Headers res' = hs' \<and>
         sent w' = sent w @ take (wcap w) (head @ buf res) \<and>
         (err = None) = (length (head @ buf res) \<le> wcap w)"
proof -
  obtain r1 w1 where w1: "Write head w = (r1, w1)"
    by (cases "Write head w")
  note a = Write_sent [OF w1]
  from writeHeadersTo_supported [of res title hs' date head keys w] st hs hd w1
  have H: "writeHeadersTo date keys res w = (snd r1, res\<lparr>Headers := hs'\<rparr>, w1)"
    by simp
  show ?thesis
  proof (cases "snd r1")
    case (Some e)
    with H w have "err = Some e" "res' = res\<lparr>Headers := hs'\<rparr>" "w' = w1"
      by (simp_all add: writeTo_def)
    with a Some show ?thesis
      by auto
  next
    case None
    with a have fit: "length head \<le> wcap w"
      by simp
    from None H w have B: "Buffer_WriteTo (res\<lparr>Headers := hs'\<rparr>) w1 = (err, res', w')"
      by (simp add: writeTo_def)
    show ?thesis
    proof (cases "buf res = []")
      case True
      with B have "err = None" "res' = res\<lparr>Headers := hs'\<rparr>" "w' = w1"
        by (simp_all add: Buffer_WriteTo_def)
      with a fit True show ?thesis
        by auto
    next
      case False
      obtain r2 w2 where w2: "Write (buf res) w1 = (r2, w2)"
        by (cases "Write (buf res) w1")
      note b = Write_sent [OF w2]
      from False B w2 have "err = snd r2" "Headers res' = hs'" "w' = w2"
        by (cases r2; cases "snd r2"; auto simp: Buffer_WriteTo_def)+
      with a b fit show ?thesis
        by auto
    qed
  qed
qed

text \<open>
  C7. For a response whose status code has a title (one without is not serialized at
  all, as the closed example with status 418 shows): \<open>writeTo\<close> leaves the response
  with the headers \<open>hs'\<close>, the handler's headers with "Date" set to the current time and
  "Content-Length" set to the decimal length of the body buffer, whatever the handler
  had stored under these two names. The serialized head is the status line, one line per
  key that \<open>range\<close> visits (the lines of "Date" and "Content-Length" among them) and
  the blank line; what is sent is the head followed by exactly the buffered body bytes,
  whole when the connection takes that many bytes and otherwise the prefix it takes, and
  the result is an error exactly in the second case.
\<close>

theorem writeTo_serializes:
  assumes st: "statusTitles (Status res) = Some title"
    and hs: "hs' = (Headers res)(''Date'' \<mapsto> date,
                                 ''Content-Length'' \<mapsto> Itoa (int (length (buf res))))"
    and ks: "set (keys hs') = dom hs'"
    and hd: "head = proto res @ '' '' @ Itoa (Status res) @ '' '' @ title @ CRLF @
                    concat (map (\<lambda>k. k @ '': '' @ index hs' k @ CRLF) (keys hs')) @ CRLF"
    and w: "writeTo date keys res w = (err, res', w')"
  shows "Headers res' = hs' \<and>
         hs' ''Date'' = Some date \<and>
         hs' ''Content-Length'' = Some (Itoa (int (length (buf res)))) \<and>
         (\<exists>a b. head = a @ (''Date: '' @ date @ CRLF) @ b) \<and>
         (\<exists>a b. head = a @ (''Content-Length: '' @ Itoa (int (length (buf res))) @ CRLF) @ b) \<and>
         sent w' = sent w @ take (wcap w) (head @ buf res) \<and>
         (err = None) = (length (head @ buf res) \<le> wcap w) \<and>
         (length (head @ buf res) \<le> wcap w \<longrightarrow> sent w' = sent w @ head @ buf res)"
proof -
  from hs have d: "hs' ''Date'' = Some date"
    and c: "hs' ''Content-Length'' = Some (Itoa (int (length (buf res))))"
    by simp_all
  from d c ks have kd: "''Date'' \<in> set (keys hs')" and kc: "''Content-Length'' \<in> set (keys hs')"
    by auto
  let ?pre = "proto res @ '' '' @ Itoa (Status res) @ '' '' @ title @ CRLF"
  let ?f = "\<lambda>k. k @ '': '' @ index hs' k @ CRLF"
  have e: "head = ?pre @ concat (map ?f (keys hs')) @ CRLF"
    unfolding hd by (simp only: append_assoc)
  from header_line_occurs [of "''Date''" "keys hs'" hs' date ?pre CRLF, OF kd d]
  obtain a b where "?pre @ concat (map ?f (keys hs')) @ CRLF =
      a @ (''Date'' @ '': '' @ date @ CRLF) @ b"
    by blast
  with e have "head = a @ (''Date: '' @ date @ CRLF) @ b"
    by simp
  then have l1: "\<exists>a b. head = a @ (''Date: '' @ date @ CRLF) @ b"
    by blast
  from header_line_occurs [of "''Content-Length''" "keys hs'" hs'
      "Itoa (int (length (buf res)))" ?pre CRLF, OF kc c]
  obtain a b where "?pre @ concat (map ?f (keys hs')) @ CRLF =
      a @ (''Content-Length'' @ '': '' @ Itoa (int (length (buf res))) @ CRLF) @ b"
    by blast
  with e have "head = a @ (''Content-Length: '' @ Itoa (int (length (buf res))) @ CRLF) @ b"
    by simp
  then have l2: "\<exists>a b. head = a @ (''Content-Length: '' @ Itoa (int (length (buf res))) @ CRLF) @ b"
    by blast
  note l = l1 l2
  from writeTo_supported [OF st hs hd w] d c l show ?thesis
    by auto
qed

theorem writeTo_serializes_witness:
  "fst (writeTo ''Tue, 03 Nov 2026 10:00:00 GMT'' exampleKeys
          \<lparr>Status = 200,
           Headers = [''Content-Length'' \<mapsto> ''999'', ''Content-Type'' \<mapsto> ''text/plain''],
           proto = ''HTTP/1.1'', buf = ''hello''\<rparr> (exampleConn [])) = None \<and>
   Headers (fst (snd (writeTo ''Tue, 03 Nov 2026 10:00:00 GMT'' exampleKeys
          \<lparr>Status = 200,
           Headers = [''Content-Length'' \<mapsto> ''999'', ''Content-Type'' \<mapsto> ''text/plain''],
           proto = ''HTTP/1.1'', buf = ''hello''\<rparr> (exampleConn [])))) ''Content-Length'' =
     Some ''5'' \<and>
   sent (snd (snd (writeTo ''Tue, 03 Nov 2026 10:00:00 GMT'' exampleKeys
          \<lparr>Status = 200,
           Headers = [''Content-Length'' \<mapsto> ''999'', ''Content-Type'' \<mapsto> ''text/plain''],
           proto = ''HTTP/1.1'', buf = ''hello''\<rparr> (exampleConn [])))) =
     ''HTTP/1.1 200 OK'' @ CRLF @
     ''Content-Length: 5'' @ CRLF @
     ''Content-Type: text/plain'' @ CRLF @
     ''Date: Tue, 03 Nov 2026 10:00:00 GMT'' @ CRLF @
     CRLF @ ''hello''"
proof -
  let ?D = "''Tue, 03 Nov 2026 10:00:00 GMT''"
  let ?R = "\<lparr>Status = 200,
           Headers = [''Content-Length'' \<mapsto> ''999'', ''Content-Type'' \<mapsto> ''text/plain''],
           proto = ''HTTP/1.1'', buf = ''hello''\<rparr>"
  let ?hs = "(Headers ?R)(''Date'' \<mapsto> ?D,
                          ''Content-Length'' \<mapsto> Itoa (int (length (buf ?R))))"
  let ?head = "proto ?R @ '' '' @ Itoa (Status ?R) @ '' '' @ ''OK'' @ CRLF @
                 concat (map (\<lambda>k. k @ '': '' @ index ?hs k @ CRLF) (exampleKeys ?hs)) @ CRLF"
  let ?X = "writeTo ?D exampleKeys ?R (exampleConn [])"
  have st: "statusTitles (Status ?R) = Some ''OK''"
    by (simp add: statusTitles_def)
  have i5: "Itoa (int (length (buf ?R))) = ''5''"
    by (simp add: Itoa_def decimal.simps char_of_def bit_Suc_0_iff)
  have i5b: "Itoa 5 = ''5''"
    by (simp add: Itoa_def decimal.simps char_of_def bit_Suc_0_iff)
  have i200: "Itoa (Status ?R) = ''200''"
    by (simp add: Itoa_def decimal.simps char_of_def bit_Suc_0_iff)
  have k: "exampleKeys ?hs = [''Content-Length'', ''Content-Type'', ''Date'']"
    by (simp add: exampleKeys_def)
  have ks: "set (exampleKeys ?hs) = dom ?hs"
    unfolding k by auto
  have h: "?head = ''HTTP/1.1 200 OK'' @ CRLF @
     ''Content-Length: 5'' @ CRLF @
     ''Content-Type: text/plain'' @ CRLF @
     ''Date: Tue, 03 Nov 2026 10:00:00 GMT'' @ CRLF @ CRLF"
    unfolding k i200 by (simp add: index_def i5b)
  have len: "length (?head @ buf ?R) \<le> wcap (exampleConn [])"
    unfolding h by (simp add: exampleConn_def CRLF_def)
  have w: "?X = (fst ?X, fst (snd ?X), snd (snd ?X))"
    by simp
  note T = writeTo_serializes [OF st refl ks refl w]
  from T len have 1: "fst ?X = None"
    by blast
  from T have 2: "Headers (fst (snd ?X)) ''Content-Length'' = Some (Itoa (int (length (buf ?R))))"
    by simp
  from T len have 3: "sent (snd (snd ?X)) = sent (exampleConn []) @ ?head @ buf ?R"
    by blast
  from 1 2 [unfolded i5] 3 [unfolded h] show ?thesis
    by (simp add: exampleConn_def)
qed

theorem writeTo_status_418_writes_nothing:
  "writeTo ''Tue, 03 Nov 2026 10:00:00 GMT'' exampleKeys
     \<lparr>Status = 418, Headers = Map.empty, proto = ''HTTP/1.1'', buf = ''tea''\<rparr>
     (exampleConn []) =
   (Some (UnsupportedStatus 418),
    \<lparr>Status = 418, Headers = Map.empty, proto = ''HTTP/1.1'', buf = ''tea''\<rparr>,
    exampleConn [])"
  by (simp add: writeTo_unsupported statusTitles_def)

end
